theory Spec2Isabelle
  imports Main "HOL-Library.AList" "HOL-Library.Sublist" "HOL-Library.Multiset"
begin

section \<open>The MPI log analyser \<open>t1.py\<close>: data model\<close>

text \<open>
  Strings are Isabelle strings: a character stands for a code point below 256.
  A \<open>Counter\<close> is a Python dictionary from tag names to integers. It is modelled as
  an association list in insertion order; an assignment \<open>a[k] = v\<close> is
  \<open>AList.update k v a\<close>, which overwrites the entry of \<open>k\<close> in place or appends a
  new one. Two dictionaries are equal in Python when they hold the same keys with the
  same values, whatever the insertion order: that is equality of \<open>map_of\<close>.
\<close>

type_synonym counter = "(string \<times> int) list"

text \<open>\<open>a.get(k, 0)\<close>, and also \<open>counts[k]\<close> on a \<open>Counter\<close>, whose missing keys read as 0.\<close>

definition counter_get :: "counter \<Rightarrow> string \<Rightarrow> int" where
  "counter_get a k = (case map_of a k of None \<Rightarrow> 0 | Some v \<Rightarrow> v)"

text \<open>\<open>counts[k] += 1\<close>\<close>

definition counter_incr :: "counter \<Rightarrow> string \<Rightarrow> counter" where
  "counter_incr counts k = AList.update k (counter_get counts k + 1) counts"

text \<open>
  \<open>dict_add(a, b)\<close> mutates \<open>a\<close>; the model returns the new \<open>a\<close>. The loop runs over
  the items of \<open>b\<close> in insertion order.
\<close>

definition dict_add :: "counter \<Rightarrow> counter \<Rightarrow> counter" where
  "dict_add a b = fold (\<lambda>(k, v) a. AList.update k (counter_get a k + v) a) b a"

text \<open>A Python dictionary holds every key once.\<close>

definition is_dict :: "counter \<Rightarrow> bool" where
  "is_dict a = distinct (map fst a)"

definition LOG_LEVELS :: "string list" where
  "LOG_LEVELS = [''DEBUG'', ''ERROR'', ''INFO'', ''WARN'']"

definition ERRORS_TAG :: string where
  "ERRORS_TAG = ''__errors__''"

subsection \<open>The file system\<close>

text \<open>
  What opening a path and iterating over its lines gives: the lines the iteration yields
  (each with its line end, as Python hands them over), and then either the normal end of
  the file (\<open>None\<close>) or an exception, with its text. A path that cannot be opened
  yields no line and raises at once. The files are only read during a run, so one
  file system serves every read of every process.
\<close>

datatype read_result = Read_result (yielded: "string list") (raised: "string option")

type_synonym file_system = "string \<Rightarrow> read_result"

definition readable :: "file_system \<Rightarrow> string \<Rightarrow> bool" where
  "readable fs fname = (raised (fs fname) = None)"

definition cannot_open :: "file_system \<Rightarrow> string \<Rightarrow> bool" where
  "cannot_open fs fname = (yielded (fs fname) = [] \<and> raised (fs fname) \<noteq> None)"

subsection \<open>Strings\<close>

text \<open>\<open>str.isspace\<close> on one character, which is also the class \<open>\s\<close> of \<open>re\<close>.\<close>

definition is_space :: "char \<Rightarrow> bool" where
  "is_space c = (of_char c \<in> set [9, 10, 11, 12, 13, 28, 29, 30, 31, 32, 133, 160 :: nat])"

text \<open>\<open>s.strip()\<close>\<close>

definition strip :: "string \<Rightarrow> string" where
  "strip s = rev (dropWhile is_space (rev (dropWhile is_space s)))"

text \<open>\<open>str(i)\<close> for an integer.\<close>

fun str_nat :: "nat \<Rightarrow> string" where
  "str_nat n = (if n < 10 then [char_of (48 + n)]
                else str_nat (n div 10) @ [char_of (48 + n mod 10)])"

declare str_nat.simps [simp del]

definition str_int :: "int \<Rightarrow> string" where
  "str_int i = (if i < 0 then CHR ''-'' # str_nat (nat (- i)) else str_nat (nat i))"

text \<open>\<open>pattern.replace("{n}", new)\<close>: every occurrence, left to right, without overlap.\<close>

fun replace_n :: "string \<Rightarrow> string \<Rightarrow> string" where
  "replace_n [] new = []"
| "replace_n (c # cs) new =
     (if prefix ''{n}'' (c # cs) then new @ replace_n (drop 2 cs) new
      else c # replace_n cs new)"

subsection \<open>The line classifier\<close>

text \<open>
  \<open>LOG_REGEX = re.compile(r"\[(.*?)\]\s*\[(.*?)\]\s*(.*)")\<close>, used with \<open>match\<close>,
  which anchors at the start of the line. A dot matches every character but the line
  feed. The two groups are lazy: the engine tries the shortest first and extends it
  when the rest of the pattern fails. \<open>\s*\<close> is greedy, and only its longest match
  can be followed by a bracket. The tail \<open>\s*(.*)\<close> matches anything.
\<close>

text \<open>After the second opening bracket: group 2 is the text before the next closing bracket.\<close>

fun regex_group2 :: "string \<Rightarrow> string option" where
  "regex_group2 [] = None"
| "regex_group2 (c # cs) =
     (if c = CHR '']'' then Some []
      else if c = CHR 0x0A then None
      else map_option ((#) c) (regex_group2 cs))"

text \<open>After the first closing bracket: \<open>\s*\[(.*?)\]\<close>.\<close>

definition regex_tail :: "string \<Rightarrow> string option" where
  "regex_tail s = (case dropWhile is_space s of
                     [] \<Rightarrow> None
                   | c # cs \<Rightarrow> if c = CHR ''['' then regex_group2 cs else None)"

text \<open>After the first opening bracket: \<open>(.*?)\]\<close> and the rest, with backtracking.\<close>

fun regex_group1 :: "string \<Rightarrow> string option" where
  "regex_group1 [] = None"
| "regex_group1 (c # cs) =
     (if c = CHR '']'' then
        (case regex_tail cs of Some g \<Rightarrow> Some g | None \<Rightarrow> regex_group1 cs)
      else if c = CHR 0x0A then None
      else regex_group1 cs)"

text \<open>\<open>m = LOG_REGEX.match(line)\<close>; the result is \<open>m.group(2)\<close>, or \<open>None\<close> without a match.\<close>

definition LOG_REGEX_match :: "string \<Rightarrow> string option" where
  "LOG_REGEX_match line = (case line of
                             [] \<Rightarrow> None
                           | c # cs \<Rightarrow> if c = CHR ''['' then regex_group1 cs else None)"

subsection \<open>\<open>analyse_files\<close>\<close>

text \<open>The body of the inner loop, for one line.\<close>

definition count_line :: "string \<Rightarrow> counter \<Rightarrow> counter" where
  "count_line line counts =
     (case LOG_REGEX_match line of
        None \<Rightarrow> counts
      | Some g \<Rightarrow> (let level = strip g in
                   if level \<in> set LOG_LEVELS then counter_incr counts level else counts))"

text \<open>
  The body of the outer loop, for one file name: the counts of the lines read before an
  exception stay in \<open>counts\<close>, and the handler adds one to the error tag.
\<close>

definition count_file :: "file_system \<Rightarrow> string \<Rightarrow> counter \<Rightarrow> counter" where
  "count_file fs fname counts =
     (let counts' = fold count_line (yielded (fs fname)) counts in
      case raised (fs fname) of
        None \<Rightarrow> counts'
      | Some e \<Rightarrow> counter_incr counts' ERRORS_TAG)"

definition analyse_files :: "file_system \<Rightarrow> string list \<Rightarrow> counter" where
  "analyse_files fs file_list = fold (count_file fs) file_list []"

subsection \<open>\<open>chunk_list\<close>\<close>

text \<open>\<open>lst[start:end]\<close> for indices that are not negative.\<close>

definition slice :: "'a list \<Rightarrow> nat \<Rightarrow> nat \<Rightarrow> 'a list" where
  "slice lst start end = take (end - start) (drop start lst)"

text \<open>The loop of \<open>chunk_list\<close> over the remaining indices, with its two variables.\<close>

fun chunk_loop :: "'a list \<Rightarrow> nat \<Rightarrow> nat \<Rightarrow> nat list \<Rightarrow> 'a list list \<Rightarrow> nat \<Rightarrow> 'a list list" where
  "chunk_loop lst q r [] chunks start = chunks"
| "chunk_loop lst q r (i # is) chunks start =
     (let end = start + q + (if i < r then 1 else 0)
      in chunk_loop lst q r is (chunks @ [slice lst start end]) end)"

definition chunk_list :: "'a list \<Rightarrow> int \<Rightarrow> 'a list list" where
  "chunk_list lst n_parts =
     (if n_parts \<le> 0 then []
      else let L = length lst;
               q = L div nat n_parts;
               r = L mod nat n_parts
           in chunk_loop lst q r [0..<nat n_parts] [] 0)"

subsection \<open>File-list resolution\<close>

text \<open>
  \<open>read_manifest(path)\<close>: the stripped lines that are not empty. An exception while
  opening or reading leaves the function; its text is the error value.
\<close>

definition read_manifest :: "file_system \<Rightarrow> string \<Rightarrow> string + string list" where
  "read_manifest fs path =
     (case raised (fs path) of
        Some e \<Rightarrow> Inl e
      | None \<Rightarrow> Inr (filter (\<lambda>s. s \<noteq> []) (map strip (yielded (fs path)))))"

text \<open>\<open>build_from_pattern(pattern, count)\<close>; \<open>range(1, count+1)\<close> is \<open>[1..count]\<close>.\<close>

definition build_from_pattern :: "string \<Rightarrow> int \<Rightarrow> string list" where
  "build_from_pattern pattern count' = map (\<lambda>i. replace_n pattern (str_int i)) [1..count']"

text \<open>
  The command line, after \<open>parse_args\<close>: \<open>args.input\<close>, \<open>args.count\<close> (an integer,
  0 when not given) and \<open>args.no_seq\<close>.
\<close>

record args =
  args_input :: string
  args_count :: int
  args_no_seq :: bool

text \<open>
  Lines 80 to 101 of \<open>main\<close>: the file list, the flag \<open>manifest_mode\<close>, and the lines
  printed on the standard error stream.
\<close>

definition resolve_file_list :: "file_system \<Rightarrow> args \<Rightarrow> string list \<times> bool \<times> string list" where
  "resolve_file_list fs a =
     (let input_arg = args_input a in
      if suffix ''.txt'' input_arg then
        (case read_manifest fs input_arg of
           Inr files \<Rightarrow> (files, True, [])
         | Inl e \<Rightarrow> ([], False,
             [''Failed to read manifest '' @ [CHR 0x27] @ input_arg @ [CHR 0x27] @ '': '' @ e]))
      else if sublist ''{n}'' input_arg then
        (if args_count a \<le> 0 then ([], False, [''Pattern mode requires --count N (N>0).''])
         else (build_from_pattern input_arg (args_count a), False, []))
      else ([input_arg], False, []))"

subsection \<open>The coordinator and the workers\<close>

text \<open>
  What a process does that another process or the invoker can see, in order: a line
  printed on either stream, a message sent to a rank with its payload, the barrier, a
  message received from a rank with its payload.
\<close>

datatype event =
  Stdout string
| Stderr string
| Send nat "string list"
| Barrier
| Recv nat counter

datatype py_error = IndexError

text \<open>
  A rank other than 0 receives its assignment, passes the barrier, analyses its files
  and sends the counts to rank 0. This is the payload of that last message.
\<close>

definition worker_counts :: "file_system \<Rightarrow> string list \<Rightarrow> counter" where
  "worker_counts fs assigned = analyse_files fs assigned"

text \<open>\<open>for r in range(1, size): comm.send(assignments[r], dest=r, tag=11)\<close>\<close>

fun send_loop :: "string list list \<Rightarrow> nat list \<Rightarrow> py_error + event list" where
  "send_loop assignments [] = Inr []"
| "send_loop assignments (r # rs) =
     (if r < length assignments then
        (case send_loop assignments rs of
           Inl e \<Rightarrow> Inl e
         | Inr evs \<Rightarrow> Inr (Send r (assignments ! r) # evs))
      else Inl IndexError)"

text \<open>
  \<open>for r in range(1, size): wc = comm.recv(source=r, tag=22); dict_add(master_counts, wc)\<close>.
  Rank \<open>r\<close> answers with the counts of the assignment it was sent, \<open>assignments[r]\<close>.
\<close>

fun recv_loop :: "file_system \<Rightarrow> string list list \<Rightarrow> nat list \<Rightarrow> counter \<Rightarrow> event list \<times> counter" where
  "recv_loop fs assignments [] master_counts = ([], master_counts)"
| "recv_loop fs assignments (r # rs) master_counts =
     (let wc = worker_counts fs (assignments ! r);
          (evs, total) = recv_loop fs assignments rs (dict_add master_counts wc)
      in (Recv r wc # evs, total))"

text \<open>Lines 134 to 141 of \<open>main\<close>: one string for each call of \<open>print\<close>.\<close>

definition report_lines :: "counter \<Rightarrow> string list" where
  "report_lines master_counts =
     [CHR 0x0A # replicate 50 CHR ''='', ''ANALYSIS RESULTS'', replicate 50 CHR ''='']
     @ map (\<lambda>lvl. lvl @ '': '' @ str_int (counter_get master_counts lvl)) LOG_LEVELS
     @ (if counter_get master_counts ERRORS_TAG > 0
        then [''FILES_OPEN_ERRORS: '' @ str_int (counter_get master_counts ERRORS_TAG)]
        else [])
     @ [replicate 50 CHR ''='']"

record master_run =
  events :: "event list"
  master_counts :: counter

text \<open>
  Rank 0 from line 103 to line 141, for a file list and \<open>size\<close> processes (written
  \<open>size'\<close> below). The result of the sequential baseline is thrown away
  (\<open>_ = analyse_files(file_list)\<close>). The lines that print a measured duration (line 120
  and lines 142 to 151) are not in the trace: their text depends on the clock. An
  exception ends the run without a trace.
\<close>

definition coordinate :: "file_system \<Rightarrow> string list \<Rightarrow> bool \<Rightarrow> nat \<Rightarrow> bool \<Rightarrow> py_error + master_run" where
  "coordinate fs file_list manifest_mode size' skip_seq =
     (let num_files = length file_list;
          found = ''Master: found '' @ str_nat num_files @ '' file(s) (manifest_mode=''
                  @ (if manifest_mode then ''True'' else ''False'') @ '')'';
          assignments = chunk_list file_list (int size')
      in case send_loop assignments [1..<size'] of
           Inl e \<Rightarrow> Inl e
         | Inr sends \<Rightarrow>
             if \<not> 0 < length assignments then Inl IndexError
             else
               let my_files = assignments ! 0;
                   baseline =
                     (if \<not> skip_seq then
                        (let _ = analyse_files fs file_list
                         in [Stdout ''Master: running sequential baseline (reading all files once)...''])
                      else []);
                   (recvs, total) = recv_loop fs assignments [1..<size'] (analyse_files fs my_files)
               in Inr \<lparr>events = [Stdout found] @ sends @ baseline
                                 @ [Stdout ''Master: starting parallel analysis...'', Barrier]
                                 @ recvs @ map Stdout (report_lines total),
                       master_counts = total\<rparr>)"

text \<open>Rank 0, from the command line on.\<close>

definition master :: "file_system \<Rightarrow> args \<Rightarrow> nat \<Rightarrow> py_error + master_run" where
  "master fs a size' =
     (case resolve_file_list fs a of
        (file_list, manifest_mode, errs) \<Rightarrow>
          (case coordinate fs file_list manifest_mode size' (args_no_seq a) of
             Inl e \<Rightarrow> Inl e
           | Inr run \<Rightarrow> Inr (run\<lparr>events := map Stderr errs @ events run\<rparr>)))"

section \<open>Notions used to state and prove the properties\<close>

text \<open>The tags one line, one file name and a file list make \<open>analyse_files\<close> count, in order.\<close>

definition line_tags :: "string \<Rightarrow> string list" where
  "line_tags line =
     (case LOG_REGEX_match line of
        None \<Rightarrow> []
      | Some g \<Rightarrow> if strip g \<in> set LOG_LEVELS then [strip g] else [])"

definition file_tags :: "file_system \<Rightarrow> string \<Rightarrow> string list" where
  "file_tags fs fname =
     concat (map line_tags (yielded (fs fname)))
     @ (case raised (fs fname) of None \<Rightarrow> [] | Some e \<Rightarrow> [ERRORS_TAG])"

definition tags_of :: "file_system \<Rightarrow> string list \<Rightarrow> string list" where
  "tags_of fs file_list = concat (map (file_tags fs) file_list)"

text \<open>Counting a sequence of tags into a counter.\<close>

definition tally :: "string list \<Rightarrow> counter \<Rightarrow> counter" where
  "tally ks counts = fold (\<lambda>k c. counter_incr c k) ks counts"

text \<open>The additive merge on the mappings themselves.\<close>

definition map_add_counts :: "(string \<rightharpoonup> int) \<Rightarrow> (string \<rightharpoonup> int) \<Rightarrow> (string \<rightharpoonup> int)" where
  "map_add_counts m n =
     (\<lambda>k. case n k of
             None \<Rightarrow> m k
           | Some v \<Rightarrow> Some ((case m k of None \<Rightarrow> 0 | Some w \<Rightarrow> w) + v))"

text \<open>The length of chunk \<open>i\<close> in \<open>chunk_list\<close>.\<close>

definition chunk_len :: "nat \<Rightarrow> nat \<Rightarrow> nat \<Rightarrow> nat" where
  "chunk_len q r i = q + (if i < r then 1 else 0)"

text \<open>
  Folding the partial results in a given order into a running total, as the receive loop of
  the coordinator does.
\<close>

definition fold_partials :: "counter list \<Rightarrow> counter \<Rightarrow> counter" where
  "fold_partials partials running = fold (\<lambda>wc t. dict_add t wc) partials running"

text \<open>
  The merge the specification describes: the counts of every chunk of
  \<open>chunk_list(L, N)\<close>, folded additively into an empty total.
\<close>

definition merged_chunk_counts :: "file_system \<Rightarrow> string list \<Rightarrow> int \<Rightarrow> counter" where
  "merged_chunk_counts fs L N = fold_partials (map (analyse_files fs) (chunk_list L N)) []"

text \<open>
  The mappings the program builds: the results of \<open>analyse_files\<close>, and what \<open>dict_add\<close>
  makes of two of them.
\<close>

inductive obtained :: "file_system \<Rightarrow> counter \<Rightarrow> bool" for fs :: file_system where
  analysed: "obtained fs (analyse_files fs file_list)"
| added: "obtained fs a \<Longrightarrow> obtained fs b \<Longrightarrow> obtained fs (dict_add a b)"

text \<open>Whether a printed report has a line for the total of the error tag.\<close>

definition reports_error_total :: "string list \<Rightarrow> bool" where
  "reports_error_total lines = list_ex (prefix ''FILES_OPEN_ERRORS: '') lines"

text \<open>
  A file system for the examples: \<open>a.log\<close> holds three ERROR lines and two INFO lines
  (and one line that is no log line), \<open>manifest.txt\<close> lists \<open>a.log\<close> and \<open>b.log\<close>, and
  no other path can be opened.
\<close>

definition example_fs :: file_system where
  "example_fs fname =
     (if fname = ''a.log'' then
        Read_result [''[t1] [ERROR] disk'' @ [CHR 0x0A], ''[t2] [INFO] up'' @ [CHR 0x0A],
                     ''[t3] [ERROR] disk'' @ [CHR 0x0A], ''not a log line'' @ [CHR 0x0A],
                     ''[t4]  [ ERROR ] net'' @ [CHR 0x0A], ''[t5] [INFO] down''] None
      else if fname = ''manifest.txt'' then
        Read_result [''a.log'' @ [CHR 0x0A], [CHR 0x0A], ''  b.log  '' @ [CHR 0x0A]] None
      else Read_result [] (Some ''[Errno 2] No such file or directory''))"

text \<open>Pieces of the trace of the coordinator.\<close>

definition baseline_events :: "bool \<Rightarrow> event list" where
  "baseline_events skip_seq =
     (if skip_seq then []
      else [Stdout ''Master: running sequential baseline (reading all files once)...''])"

definition found_line :: "nat \<Rightarrow> bool \<Rightarrow> string" where
  "found_line num_files manifest_mode =
     ''Master: found '' @ str_nat num_files @ '' file(s) (manifest_mode=''
       @ (if manifest_mode then ''True'' else ''False'') @ '')''"

text \<open>A mapping whose keys are recognized tags and whose counts are not negative.\<close>

definition tag_counts_ok :: "(string \<rightharpoonup> int) \<Rightarrow> bool" where
  "tag_counts_ok m = (\<forall>k v. m k = Some v \<longrightarrow> k \<in> insert ERRORS_TAG (set LOG_LEVELS) \<and> 0 \<le> v)"

text \<open>
  The configuration errors of the file-list resolution: a manifest (an input ending in
  \<open>.txt\<close>) whose reading raises, or a pattern (an input with \<open>{n}\<close> that is no
  manifest) with a count that is not positive; and the line \<open>main\<close> prints on the
  standard error stream for each.
\<close>

definition configuration_error :: "file_system \<Rightarrow> args \<Rightarrow> bool" where
  "configuration_error fs a =
     (if suffix ''.txt'' (args_input a) then raised (fs (args_input a)) \<noteq> None
      else sublist ''{n}'' (args_input a) \<and> args_count a \<le> 0)"

definition configuration_message :: "file_system \<Rightarrow> args \<Rightarrow> string" where
  "configuration_message fs a =
     (if suffix ''.txt'' (args_input a) then
        (case raised (fs (args_input a)) of
           None \<Rightarrow> []
         | Some e \<Rightarrow> ''Failed to read manifest '' @ [CHR 0x27] @ args_input a @ [CHR 0x27]
                       @ '': '' @ e)
      else ''Pattern mode requires --count N (N>0).'')"

text \<open>
  An identifier is unreadable when opening or reading it raises. \<open>read_to_failure\<close> is
  the file system in which that file ends normally after the lines it yielded.
\<close>

definition unreadable :: "file_system \<Rightarrow> string \<Rightarrow> bool" where
  "unreadable fs fname = (raised (fs fname) \<noteq> None)"

definition read_to_failure :: "file_system \<Rightarrow> string \<Rightarrow> file_system" where
  "read_to_failure fs fname = fs(fname := Read_result (yielded (fs fname)) None)"

text \<open>
  The example file system with one more file: \<open>bad.log\<close> yields two ERROR lines and
  then its reading raises.
\<close>

definition example_fs_mid :: file_system where
  "example_fs_mid fname =
     (if fname = ''bad.log'' then
        Read_result [''[t1] [ERROR] disk'' @ [CHR 0x0A], ''[t2] [ERROR] disk'' @ [CHR 0x0A]]
          (Some ''[Errno 5] Input/output error'')
      else example_fs fname)"

section \<open>Counters and the additive merge\<close>

lemma tally_append: "tally (ks @ ks') c = tally ks' (tally ks c)"
  by (simp add: tally_def)

lemma count_line_tally: "count_line line c = tally (line_tags line) c"
  by (simp add: count_line_def line_tags_def tally_def split: option.splits)

lemma fold_count_line_tally: "fold count_line ls c = tally (concat (map line_tags ls)) c"
  by (induction ls arbitrary: c) (simp_all add: tally_def count_line_tally tally_append)

lemma count_file_tally: "count_file fs fname c = tally (file_tags fs fname) c"
  by (simp add: count_file_def file_tags_def fold_count_line_tally tally_append split: option.splits)
     (simp add: tally_def)

lemma fold_count_file_tally: "fold (count_file fs) fl c = tally (tags_of fs fl) c"
  by (induction fl arbitrary: c)
     (simp_all add: tags_of_def count_file_tally tally_append, simp add: tally_def)

lemma analyse_files_tally: "analyse_files fs fl = tally (tags_of fs fl) []"
  by (simp add: analyse_files_def fold_count_file_tally)

lemma map_of_tally:
  "map_of (tally ks c) k =
     (if k \<in> set ks then Some (counter_get c k + int (count_list ks k)) else map_of c k)"
proof (induction ks arbitrary: c)
  case Nil
  then show ?case by (simp add: tally_def)
next
  case (Cons x ks)
  have "tally (x # ks) c = tally ks (counter_incr c x)" by (simp add: tally_def)
  then show ?case using Cons.IH [of "counter_incr c x"]
    by (auto simp: counter_incr_def counter_get_def update_conv' split: option.splits)
qed

lemma is_dict_tally: "is_dict c \<Longrightarrow> is_dict (tally ks c)"
  by (induction ks arbitrary: c)
     (simp_all add: tally_def is_dict_def counter_incr_def distinct_update)

lemma is_dict_analyse_files: "is_dict (analyse_files fs fl)"
  unfolding analyse_files_tally by (rule is_dict_tally) (simp add: is_dict_def)

lemma dict_add_Cons:
  "dict_add a ((k', v') # b) = dict_add (AList.update k' (counter_get a k' + v') a) b"
  by (simp add: dict_add_def)

lemma map_of_dict_add:
  "is_dict b \<Longrightarrow> map_of (dict_add a b) = map_add_counts (map_of a) (map_of b)"
proof (induction b arbitrary: a)
  case Nil
  then show ?case by (simp add: dict_add_def map_add_counts_def)
next
  case (Cons p b)
  obtain k' v' where p: "p = (k', v')" by (cases p)
  from Cons.prems have d: "is_dict b" and nk: "k' \<notin> fst ` set b"
    by (auto simp: is_dict_def p)
  have none: "map_of b k' = None" using nk by (simp add: map_of_eq_None_iff)
  show ?case unfolding p dict_add_Cons Cons.IH [OF d]
    using none
    by (auto simp: fun_eq_iff map_add_counts_def update_conv' counter_get_def split: option.splits)
qed

lemma is_dict_dict_add: "is_dict a \<Longrightarrow> is_dict (dict_add a b)"
proof (induction b arbitrary: a)
  case Nil
  then show ?case by (simp add: dict_add_def)
next
  case (Cons p b)
  obtain k' v' where p: "p = (k', v')" by (cases p)
  show ?case unfolding p dict_add_Cons using Cons.prems
    by (intro Cons.IH) (simp add: is_dict_def distinct_update)
qed

lemma map_of_analyse_files:
  "map_of (analyse_files fs fl) k =
     (if k \<in> set (tags_of fs fl) then Some (int (count_list (tags_of fs fl) k)) else None)"
  by (simp add: analyse_files_tally map_of_tally counter_get_def)

lemma analyse_files_append:
  "map_of (dict_add (analyse_files fs xs) (analyse_files fs ys)) = map_of (analyse_files fs (xs @ ys))"
  by (rule ext)
     (auto simp: map_of_dict_add is_dict_analyse_files map_add_counts_def map_of_analyse_files
        tags_of_def)

section \<open>The partition\<close>

lemma chunk_loop_acc:
  "chunk_loop lst q r is chunks start = chunks @ chunk_loop lst q r is [] start"
proof (induction "is" arbitrary: chunks start)
  case Nil
  show ?case by simp
next
  case (Cons i "is")
  show ?case
    by (simp add: Let_def Cons.IH [of "chunks @ _"] Cons.IH [of "[_]"])
qed

lemma chunk_loop_Cons:
  "chunk_loop lst q r (i # is) [] start =
     slice lst start (start + chunk_len q r i) # chunk_loop lst q r is [] (start + chunk_len q r i)"
  using chunk_loop_acc [of lst q r "is" "[slice lst start (start + chunk_len q r i)]"]
  by (simp add: Let_def chunk_len_def add.assoc)

lemma length_chunk_loop: "length (chunk_loop lst q r is [] start) = length is"
  by (induction "is" arbitrary: start) (simp_all add: chunk_loop_Cons del: chunk_loop.simps(2))

lemma slice_append: "slice lst s (s + a) @ slice lst (s + a) (s + a + b) = slice lst s (s + (a + b))"
  by (simp add: slice_def take_add add.commute)

lemma concat_chunk_loop:
  "concat (chunk_loop lst q r is [] start) = slice lst start (start + sum_list (map (chunk_len q r) is))"
proof (induction "is" arbitrary: start)
  case Nil
  show ?case by (simp add: slice_def)
next
  case (Cons i "is")
  show ?case
    by (simp add: chunk_loop_Cons Cons.IH slice_append del: chunk_loop.simps(2))
qed

lemma map_length_chunk_loop:
  "start + sum_list (map (chunk_len q r) is) \<le> length lst \<Longrightarrow>
     map length (chunk_loop lst q r is [] start) = map (chunk_len q r) is"
proof (induction "is" arbitrary: start)
  case Nil
  show ?case by simp
next
  case (Cons i "is")
  from Cons.prems have "start + chunk_len q r i + sum_list (map (chunk_len q r) is) \<le> length lst"
    by simp
  from Cons.IH [OF this] Cons.prems show ?case
    by (simp add: chunk_loop_Cons slice_def del: chunk_loop.simps(2))
qed

lemma sum_chunk_len: "sum_list (map (chunk_len q r) [0..<n]) = n * q + min n r"
  by (induction n) (auto simp: chunk_len_def min_def)

lemma chunk_list_pos:
  "0 < N \<Longrightarrow> chunk_list lst N =
     chunk_loop lst (length lst div nat N) (length lst mod nat N) [0..<nat N] [] 0"
  by (simp add: chunk_list_def Let_def)

lemma chunk_total:
  assumes "0 < n"
  shows "sum_list (map (chunk_len (l div n) (l mod n)) [0..<n]) = l"
proof -
  have "l mod n < n" using assms by simp
  then have "min n (l mod n) = l mod n" by simp
  then show ?thesis by (simp add: sum_chunk_len)
qed

lemma length_chunk_list: "0 < N \<Longrightarrow> length (chunk_list lst N) = nat N"
  by (simp add: chunk_list_pos length_chunk_loop)

lemma concat_chunk_list: "0 < N \<Longrightarrow> concat (chunk_list lst N) = lst"
  by (simp add: chunk_list_pos concat_chunk_loop chunk_total slice_def)

lemma map_length_chunk_list:
  "0 < N \<Longrightarrow> map length (chunk_list lst N) =
     map (chunk_len (length lst div nat N) (length lst mod nat N)) [0..<nat N]"
  by (simp add: chunk_list_pos map_length_chunk_loop chunk_total)

lemma nth_concat_slice:
  "i < length xss \<Longrightarrow>
     xss ! i = take (length (xss ! i)) (drop (length (concat (take i xss))) (concat xss))"
proof -
  assume "i < length xss"
  then have "xss = take i xss @ xss ! i # drop (Suc i) xss"
    by (simp add: id_take_nth_drop)
  then have "concat xss = concat (take i xss) @ xss ! i @ concat (drop (Suc i) xss)"
    by (metis concat.simps(2) concat_append)
  then show ?thesis by simp
qed

lemma length_nth_chunk_list:
  assumes "0 < N" and "i < nat N"
  shows "length (chunk_list lst N ! i) =
           length lst div nat N + (if i < length lst mod nat N then 1 else 0)"
proof -
  have "length (chunk_list lst N ! i) = map length (chunk_list lst N) ! i"
    using assms by (simp add: length_chunk_list)
  also have "\<dots> = chunk_len (length lst div nat N) (length lst mod nat N) i"
    unfolding map_length_chunk_list [OF assms(1)] using assms(2) by simp
  finally show ?thesis by (simp add: chunk_len_def)
qed

section \<open>The coordinator\<close>

lemma map_of_fold_partials:
  "\<forall>p \<in> set ps. is_dict p \<Longrightarrow>
     map_of (fold_partials ps t) = fold (\<lambda>m acc. map_add_counts acc m) (map map_of ps) (map_of t)"
proof (induction ps arbitrary: t)
  case Nil
  show ?case by (simp add: fold_partials_def)
next
  case (Cons p ps)
  have "fold_partials (p # ps) t = fold_partials ps (dict_add t p)"
    by (simp add: fold_partials_def)
  then show ?case using Cons by (simp add: map_of_dict_add)
qed

lemma map_add_counts_swap:
  "map_add_counts (map_add_counts t m) n = map_add_counts (map_add_counts t n) m"
  by (auto simp: map_add_counts_def fun_eq_iff split: option.splits)

lemma map_add_counts_commute: "map_add_counts m n = map_add_counts n m"
  by (auto simp: map_add_counts_def fun_eq_iff split: option.splits)

lemma map_add_counts_assoc:
  "map_add_counts (map_add_counts a b) c = map_add_counts a (map_add_counts b c)"
  by (auto simp: map_add_counts_def fun_eq_iff split: option.splits)

lemma fold_partials_analyse:
  "map_of t = map_of (analyse_files fs xs) \<Longrightarrow>
     map_of (fold_partials (map (analyse_files fs) cs) t) = map_of (analyse_files fs (xs @ concat cs))"
proof (induction cs arbitrary: t xs)
  case Nil
  then show ?case by (simp add: fold_partials_def)
next
  case (Cons c cs)
  have step: "fold_partials (map (analyse_files fs) (c # cs)) t
                = fold_partials (map (analyse_files fs) cs) (dict_add t (analyse_files fs c))"
    by (simp add: fold_partials_def)
  have "map_of (dict_add t (analyse_files fs c)) = map_of (analyse_files fs (xs @ c))"
    using Cons.prems analyse_files_append [of fs xs c]
    by (simp add: map_of_dict_add is_dict_analyse_files)
  from Cons.IH [OF this] show ?case unfolding step by simp
qed

lemma analyse_files_Nil: "analyse_files fs [] = []"
  by (simp add: analyse_files_def)

lemma merged_chunk_counts_eq:
  "0 < N \<Longrightarrow> map_of (merged_chunk_counts fs L N) = map_of (analyse_files fs L)"
  using fold_partials_analyse [of "[]" fs "[]" "chunk_list L N"]
  by (simp add: merged_chunk_counts_def analyse_files_Nil concat_chunk_list)

lemma send_loop_ok:
  "\<forall>r \<in> set rs. r < length assignments \<Longrightarrow>
     send_loop assignments rs = Inr (map (\<lambda>r. Send r (assignments ! r)) rs)"
  by (induction rs) simp_all

lemma recv_loop_eq:
  "recv_loop fs assignments rs m =
     (map (\<lambda>r. Recv r (worker_counts fs (assignments ! r))) rs,
      fold_partials (map (\<lambda>r. analyse_files fs (assignments ! r)) rs) m)"
  by (induction rs arbitrary: m) (simp_all add: fold_partials_def worker_counts_def Let_def)

lemma map_nth_from_1: "xs \<noteq> [] \<Longrightarrow> map ((!) xs) [1..<length xs] = tl xs"
proof -
  assume "xs \<noteq> []"
  then obtain y ys where xs: "xs = y # ys" by (cases xs) auto
  have "map ((!) (y # ys)) (map Suc [0..<length ys]) = map ((!) ys) [0..<length ys]"
    by simp
  then have "map ((!) (y # ys)) [Suc 0..<Suc (length ys)] = ys"
    by (simp only: map_Suc_upt map_nth)
  then show ?thesis by (simp add: xs)
qed

lemma coordinate_ok:
  assumes "1 \<le> n"
  shows "coordinate fs L mm n skip =
     Inr \<lparr>events = [Stdout (found_line (length L) mm)]
              @ map (\<lambda>r. Send r (chunk_list L (int n) ! r)) [1..<n]
              @ baseline_events skip
              @ [Stdout ''Master: starting parallel analysis...'', Barrier]
              @ map (\<lambda>r. Recv r (worker_counts fs (chunk_list L (int n) ! r))) [1..<n]
              @ map Stdout (report_lines
                  (fold_partials (map (analyse_files fs) (tl (chunk_list L (int n))))
                     (analyse_files fs (hd (chunk_list L (int n)))))),
           master_counts = fold_partials (map (analyse_files fs) (tl (chunk_list L (int n))))
                     (analyse_files fs (hd (chunk_list L (int n))))\<rparr>"
proof -
  let ?as = "chunk_list L (int n)"
  have len: "length ?as = n" using assms by (simp add: length_chunk_list)
  then have ne: "?as \<noteq> []" using assms by auto
  have sends: "send_loop ?as [Suc 0..<n] = Inr (map (\<lambda>r. Send r (?as ! r)) [Suc 0..<n])"
    by (rule send_loop_ok) (simp add: len)
  have "map (\<lambda>r. analyse_files fs (?as ! r)) [Suc 0..<n]
          = map (analyse_files fs) (map ((!) ?as) [1..<length ?as])"
    by (simp add: len)
  also have "\<dots> = map (analyse_files fs) (tl ?as)"
    by (simp only: map_nth_from_1 [OF ne])
  finally have parts:
    "map (\<lambda>r. analyse_files fs (?as ! r)) [Suc 0..<n] = map (analyse_files fs) (tl ?as)" .
  have hd0: "?as ! 0 = hd ?as" using ne by (simp add: hd_conv_nth)
  show ?thesis
    using assms
    by (simp add: coordinate_def Let_def sends len recv_loop_eq parts hd0 baseline_events_def found_line_def)
qed

lemma coordinate_counts:
  assumes "1 \<le> n"
  shows "map_of (fold_partials (map (analyse_files fs) (tl (chunk_list L (int n))))
                     (analyse_files fs (hd (chunk_list L (int n))))) = map_of (analyse_files fs L)"
proof -
  let ?as = "chunk_list L (int n)"
  have len: "length ?as = n" using assms by (simp add: length_chunk_list)
  then have ne: "?as \<noteq> []" using assms by auto
  have "concat ?as = L" using assms by (simp add: concat_chunk_list)
  then have "hd ?as @ concat (tl ?as) = L" using ne by (cases ?as) auto
  then show ?thesis
    using fold_partials_analyse [of "analyse_files fs (hd ?as)" fs "hd ?as" "tl ?as"] by simp
qed

lemma chunk_list_1: "chunk_list L 1 = [L]"
  by (simp add: chunk_list_def Let_def slice_def)

section \<open>Tags and counts\<close>

lemma line_tags_levels: "set (line_tags line) \<subseteq> set LOG_LEVELS"
  by (auto simp: line_tags_def split: option.splits if_splits)

lemma file_tags_recognized: "set (file_tags fs f) \<subseteq> insert ERRORS_TAG (set LOG_LEVELS)"
  using line_tags_levels by (auto simp: file_tags_def split: option.splits)

lemma tags_of_recognized: "set (tags_of fs fl) \<subseteq> insert ERRORS_TAG (set LOG_LEVELS)"
  using file_tags_recognized by (auto simp: tags_of_def)

lemma tag_counts_ok_analyse_files: "tag_counts_ok (map_of (analyse_files fs fl))"
  unfolding tag_counts_ok_def
proof (intro allI impI)
  fix k v assume "map_of (analyse_files fs fl) k = Some v"
  then have "k \<in> set (tags_of fs fl)" and "v = int (count_list (tags_of fs fl) k)"
    by (auto simp: map_of_analyse_files split: if_splits)
  moreover have "set (tags_of fs fl) \<subseteq> insert ERRORS_TAG (set LOG_LEVELS)"
    by (rule tags_of_recognized)
  ultimately have "k \<in> insert ERRORS_TAG (set LOG_LEVELS)" and "0 \<le> v"
    by (blast, simp)
  then show "k \<in> insert ERRORS_TAG (set LOG_LEVELS) \<and> 0 \<le> v" by (rule conjI)
qed

lemma tag_counts_ok_add:
  assumes "tag_counts_ok m" and "tag_counts_ok n"
  shows "tag_counts_ok (map_add_counts m n)"
  unfolding tag_counts_ok_def
proof (intro allI impI)
  fix k v assume kv: "map_add_counts m n k = Some v"
  show "k \<in> insert ERRORS_TAG (set LOG_LEVELS) \<and> 0 \<le> v"
  proof (cases "n k")
    case None
    with kv have "m k = Some v" by (simp add: map_add_counts_def)
    with assms(1) show ?thesis unfolding tag_counts_ok_def by blast
  next
    case (Some w)
    with assms(2) have w: "k \<in> insert ERRORS_TAG (set LOG_LEVELS)" "0 \<le> w"
      unfolding tag_counts_ok_def by blast+
    have "0 \<le> (case m k of None \<Rightarrow> 0 | Some x \<Rightarrow> x)"
      using assms(1) unfolding tag_counts_ok_def by (cases "m k") auto
    moreover from Some kv have "v = (case m k of None \<Rightarrow> 0 | Some x \<Rightarrow> x) + w"
      by (simp add: map_add_counts_def)
    ultimately have "0 \<le> v" using w(2) by simp
    with w(1) show ?thesis by (rule conjI)
  qed
qed

lemma obtained_ok: "obtained fs c \<Longrightarrow> is_dict c \<and> tag_counts_ok (map_of c)"
proof (induction rule: obtained.induct)
  case (analysed file_list)
  show ?case by (simp add: is_dict_analyse_files tag_counts_ok_analyse_files)
next
  case (added a b)
  then show ?case by (simp add: is_dict_dict_add map_of_dict_add tag_counts_ok_add)
qed

lemma recognized_literal:
  "insert ERRORS_TAG (set LOG_LEVELS) = {''DEBUG'', ''ERROR'', ''INFO'', ''WARN'', ''__errors__''}"
  unfolding ERRORS_TAG_def LOG_LEVELS_def by (simp only: list.set insert_commute)

lemma readable_no_error_tag:
  assumes "readable fs f"
  shows "ERRORS_TAG \<notin> set (file_tags fs f)"
proof -
  have "ERRORS_TAG \<notin> set LOG_LEVELS" by (simp add: ERRORS_TAG_def LOG_LEVELS_def)
  with line_tags_levels have "ERRORS_TAG \<notin> set (line_tags l)" for l by blast
  with assms show ?thesis by (simp add: file_tags_def readable_def)
qed

lemma readable_list_no_error_tag:
  "\<forall>f \<in> set fl. readable fs f \<Longrightarrow> ERRORS_TAG \<notin> set (tags_of fs fl)"
  using readable_no_error_tag by (auto simp: tags_of_def)

lemma cannot_open_tags: "cannot_open fs u \<Longrightarrow> file_tags fs u = [ERRORS_TAG]"
  by (auto simp: cannot_open_def file_tags_def)

lemma level_not_error_tag: "level \<in> set LOG_LEVELS \<Longrightarrow> level \<noteq> ERRORS_TAG"
  by (auto simp: ERRORS_TAG_def LOG_LEVELS_def)

lemma chunk_beyond_files_empty:
  assumes "length L < n" and "length L \<le> i" and "i < n"
  shows "chunk_list L (int n) ! i = []"
proof -
  have "length (chunk_list L (int n) ! i) = 0"
    using assms by (simp add: length_nth_chunk_list)
  then show ?thesis by simp
qed

section \<open>The report\<close>

lemma not_prefix_rule: "\<not> prefix (CHR ''F'' # s) (replicate n CHR ''='')"
  by (cases n) simp_all

lemma level_line_no_error_prefix:
  "level \<in> set LOG_LEVELS \<Longrightarrow> \<not> prefix ''FILES_OPEN_ERRORS: '' (level @ rest)"
  by (auto simp: LOG_LEVELS_def)

lemma reports_error_total_iff:
  "reports_error_total (report_lines c) = (0 < counter_get c ERRORS_TAG)"
proof -
  have lv: "\<not> list_ex (prefix ''FILES_OPEN_ERRORS: '')
              (map (\<lambda>lvl. lvl @ '': '' @ str_int (counter_get c lvl)) LOG_LEVELS)"
    using level_line_no_error_prefix by (auto simp: list_ex_iff)
  show ?thesis
    using lv by (simp add: reports_error_total_def report_lines_def not_prefix_rule)
qed

section \<open>Configuration errors\<close>

lemma resolve_configuration_error:
  "configuration_error fs a \<Longrightarrow>
     resolve_file_list fs a = ([], False, [configuration_message fs a])"
  by (auto simp: configuration_error_def configuration_message_def resolve_file_list_def
        read_manifest_def Let_def split: option.splits)

lemma chunk_list_Nil:
  assumes "1 \<le> n"
  shows "chunk_list ([] :: 'a list) (int n) = replicate n []"
proof (rule nth_equalityI)
  show len: "length (chunk_list ([] :: 'a list) (int n)) = length (replicate n ([] :: 'a list))"
    using assms by (simp add: length_chunk_list)
  fix i assume "i < length (chunk_list ([] :: 'a list) (int n))"
  with len have i: "i < n" by simp
  then have "length (chunk_list ([] :: 'a list) (int n) ! i) = 0"
    using assms by (simp add: length_nth_chunk_list)
  with i show "chunk_list ([] :: 'a list) (int n) ! i = replicate n [] ! i" by simp
qed

lemma fold_partials_empty: "fold_partials (replicate k []) m = m"
  by (induction k) (simp_all add: fold_partials_def dict_add_def)

lemma found_line_0: "found_line 0 False = ''Master: found 0 file(s) (manifest_mode=False)''"
  by code_simp

lemma coordinate_Nil:
  assumes "1 \<le> n"
  shows "coordinate fs [] False n skip =
     Inr \<lparr>events = [Stdout ''Master: found 0 file(s) (manifest_mode=False)'']
              @ map (\<lambda>r. Send r []) [1..<n]
              @ baseline_events skip
              @ [Stdout ''Master: starting parallel analysis...'', Barrier]
              @ map (\<lambda>r. Recv r []) [1..<n]
              @ map Stdout (report_lines []),
           master_counts = []\<rparr>"
proof -
  have cl: "chunk_list ([] :: string list) (int n) = replicate n []"
    by (rule chunk_list_Nil [OF assms])
  obtain k where n: "n = Suc k" using assms by (cases n) auto
  have s: "map (\<lambda>r. Send r (replicate n [] ! r)) [1..<n] = map (\<lambda>r. Send r []) [1..<n]"
    by (rule map_cong) simp_all
  have r: "map (\<lambda>r. Recv r (worker_counts fs (replicate n [] ! r))) [1..<n]
             = map (\<lambda>r. Recv r []) [1..<n]"
    by (rule map_cong) (simp_all add: worker_counts_def analyse_files_Nil)
  have t: "fold_partials (map (analyse_files fs) (tl (replicate n [])))
             (analyse_files fs (hd (replicate n []))) = []"
    by (simp add: n analyse_files_Nil fold_partials_empty)
  show ?thesis
    unfolding coordinate_ok [OF assms] cl s r t
    by (simp add: found_line_0)
qed

section \<open>Files whose reading raises\<close>

lemma counter_get_analyse_files:
  "counter_get (analyse_files fs fl) k = int (count_list (tags_of fs fl) k)"
  by (simp add: counter_get_def map_of_analyse_files count_list_0_iff)

lemma unreadable_tags:
  "unreadable fs u \<Longrightarrow>
     file_tags fs u = concat (map line_tags (yielded (fs u))) @ [ERRORS_TAG]"
  by (auto simp: unreadable_def file_tags_def)

lemma read_to_failure_tags:
  "file_tags (read_to_failure fs u) u = concat (map line_tags (yielded (fs u)))"
  by (simp add: read_to_failure_def file_tags_def)

lemma read_to_failure_other:
  "u \<notin> set fl \<Longrightarrow> tags_of (read_to_failure fs u) fl = tags_of fs fl"
  by (induction fl) (auto simp: tags_of_def file_tags_def read_to_failure_def)

lemma yielded_tags_no_error_tag: "ERRORS_TAG \<notin> set (concat (map line_tags ls))"
proof -
  have "ERRORS_TAG \<notin> set LOG_LEVELS" by (simp add: ERRORS_TAG_def LOG_LEVELS_def)
  with line_tags_levels have "ERRORS_TAG \<notin> set (line_tags l)" for l by blast
  then show ?thesis by simp
qed

section \<open>The claims\<close>

text \<open>
  C2. For every list \<open>L\<close> and every participant count \<open>N \<ge> 1\<close>, \<open>chunk_list(L, N)\<close>
  returns exactly \<open>N\<close> slices; their concatenation in order is \<open>L\<close>, so nothing is
  left out and nothing occurs twice; slice \<open>i\<close> is the contiguous piece of \<open>L\<close> that
  starts where the slices before it end; slice \<open>i\<close> has \<open>len(L) div N\<close> elements and one
  more when \<open>i < len(L) mod N\<close>, so that two slices differ in length by at most 1 and
  the first \<open>len(L) mod N\<close> slices are the longer ones. Seven identifiers and \<open>N = 3\<close>
  give the sizes 3, 2, 2.
\<close>

theorem chunk_list_partition:
  assumes "1 \<le> N"
  shows "length (chunk_list L N) = nat N
       \<and> concat (chunk_list L N) = L
       \<and> (\<forall>i < nat N. chunk_list L N ! i =
              take (length (chunk_list L N ! i))
                (drop (length (concat (take i (chunk_list L N)))) L))
       \<and> (\<forall>i < nat N. length (chunk_list L N ! i) =
              length L div nat N + (if i < length L mod nat N then 1 else 0))
       \<and> (\<forall>i < nat N. \<forall>j < nat N.
              length (chunk_list L N ! i) \<le> length (chunk_list L N ! j) + 1)
       \<and> (length L = 7 \<and> N = 3 \<longrightarrow> map length (chunk_list L N) = [3, 2, 2])"
proof -
  from assms have pos: "0 < N" by simp
  let ?cs = "chunk_list L N"
  have len: "length ?cs = nat N" by (rule length_chunk_list [OF pos])
  have cat: "concat ?cs = L" by (rule concat_chunk_list [OF pos])
  have lens: "map length ?cs = map (chunk_len (length L div nat N) (length L mod nat N)) [0..<nat N]"
    by (rule map_length_chunk_list [OF pos])
  have nth_len: "length (?cs ! i) = length L div nat N + (if i < length L mod nat N then 1 else 0)"
    if "i < nat N" for i
    by (rule length_nth_chunk_list [OF pos that])
  have contiguous: "?cs ! i = take (length (?cs ! i)) (drop (length (concat (take i ?cs))) L)"
    if "i < nat N" for i
    using nth_concat_slice [of i ?cs] that len cat by simp
  have example: "map length ?cs = [3, 2, 2]" if "length L = 7 \<and> N = 3"
  proof -
    have "[0..<nat 3] = [0, 1, 2]" by (simp add: upt_rec)
    then show ?thesis unfolding lens using that by (simp add: chunk_len_def)
  qed
  show ?thesis using len cat nth_len contiguous example by simp
qed

theorem chunk_list_partition_witness:
  "(1::int) \<le> 3
   \<and> chunk_list [''f1'', ''f2'', ''f3'', ''f4'', ''f5'', ''f6'', ''f7''] 3
       = [[''f1'', ''f2'', ''f3''], [''f4'', ''f5''], [''f6'', ''f7'']]
   \<and> length (chunk_list [''f1'', ''f2'', ''f3'', ''f4'', ''f5'', ''f6'', ''f7''] 3) = 3
   \<and> concat (chunk_list [''f1'', ''f2'', ''f3'', ''f4'', ''f5'', ''f6'', ''f7''] 3)
       = [''f1'', ''f2'', ''f3'', ''f4'', ''f5'', ''f6'', ''f7'']
   \<and> length (chunk_list [''f1'', ''f2'', ''f3'', ''f4'', ''f5'', ''f6'', ''f7''] 3 ! 0) = 3
   \<and> length (chunk_list [''f1'', ''f2'', ''f3'', ''f4'', ''f5'', ''f6'', ''f7''] 3 ! 2) = 2
   \<and> map length (chunk_list [''f1'', ''f2'', ''f3'', ''f4'', ''f5'', ''f6'', ''f7''] 3) = [3, 2, 2]"
proof -
  let ?L = "[''f1'', ''f2'', ''f3'', ''f4'', ''f5'', ''f6'', ''f7'']"
  have h: "(1::int) \<le> 3" by simp
  have ev: "chunk_list ?L 3 = [[''f1'', ''f2'', ''f3''], [''f4'', ''f5''], [''f6'', ''f7'']]"
    by code_simp
  note inst = chunk_list_partition [OF h, of ?L]
  have len: "length (chunk_list ?L 3) = 3"
    using inst [THEN conjunct1] by simp
  have cat: "concat (chunk_list ?L 3) = ?L"
    by (rule inst [THEN conjunct2, THEN conjunct1])
  have nth: "\<forall>i < nat 3. length (chunk_list ?L 3 ! i) =
               length ?L div nat 3 + (if i < length ?L mod nat 3 then 1 else 0)"
    by (rule inst [THEN conjunct2, THEN conjunct2, THEN conjunct2, THEN conjunct1])
  have n0: "length (chunk_list ?L 3 ! 0) = 3"
    using nth [rule_format, of 0] by simp
  have n2: "length (chunk_list ?L 3 ! 2) = 2"
    using nth [rule_format, of 2] by simp
  have ex: "map length (chunk_list ?L 3) = [3, 2, 2]"
    using inst [THEN conjunct2, THEN conjunct2, THEN conjunct2, THEN conjunct2, THEN conjunct2]
    by simp
  show ?thesis by (intro conjI) (rule h ev len cat n0 n2 ex)+
qed

text \<open>
  C1. For every file list \<open>L\<close> and every participant count \<open>N \<ge> 1\<close>, folding with
  \<open>dict_add\<close> the mappings \<open>analyse_files\<close> produces on the chunks of
  \<open>chunk_list(L, N)\<close> gives the same mapping (the same keys with the same counts) as
  \<open>analyse_files\<close> on the whole of \<open>L\<close>. The coordinator, which starts from the counts
  of its own chunk and adds the workers' counts in rank order, ends with that mapping
  too, and a run with a single participant ends with the very result of the sequential
  pass.
\<close>

theorem distributed_counts_equal_sequential:
  assumes "1 \<le> N"
  shows "map_of (merged_chunk_counts fs L (int N)) = map_of (analyse_files fs L)
       \<and> (\<exists>run. coordinate fs L manifest_mode N skip_seq = Inr run
              \<and> map_of (master_counts run) = map_of (analyse_files fs L))
       \<and> (N = 1 \<longrightarrow> (\<exists>run. coordinate fs L manifest_mode N skip_seq = Inr run
              \<and> master_counts run = analyse_files fs L))"
proof -
  have a: "map_of (merged_chunk_counts fs L (int N)) = map_of (analyse_files fs L)"
    using assms by (simp add: merged_chunk_counts_eq)
  have b: "\<exists>run. coordinate fs L manifest_mode N skip_seq = Inr run
              \<and> map_of (master_counts run) = map_of (analyse_files fs L)"
    using assms by (simp add: coordinate_ok coordinate_counts)
  have c: "\<exists>run. coordinate fs L manifest_mode N skip_seq = Inr run
              \<and> master_counts run = analyse_files fs L" if "N = 1"
    using that by (simp add: coordinate_ok chunk_list_1 fold_partials_def)
  show ?thesis using a b c by blast
qed

theorem distributed_counts_equal_sequential_witness:
  "(1::nat) \<le> 2
   \<and> map_of (merged_chunk_counts example_fs [''a.log'', ''b.log'', ''a.log''] (int 2))
       = map_of (analyse_files example_fs [''a.log'', ''b.log'', ''a.log''])
   \<and> (\<exists>run. coordinate example_fs [''a.log'', ''b.log'', ''a.log''] False 2 True = Inr run
          \<and> map_of (master_counts run)
              = map_of (analyse_files example_fs [''a.log'', ''b.log'', ''a.log'']))
   \<and> analyse_files example_fs [''a.log'', ''b.log'', ''a.log'']
       = [(''ERROR'', 6), (''INFO'', 4), (''__errors__'', 1)]
   \<and> (\<exists>run. coordinate example_fs [''a.log'', ''b.log'', ''a.log''] False 1 True = Inr run
          \<and> master_counts run = analyse_files example_fs [''a.log'', ''b.log'', ''a.log''])"
proof -
  let ?L = "[''a.log'', ''b.log'', ''a.log'']"
  have h: "(1::nat) \<le> 2" by simp
  have h1: "(1::nat) \<le> 1" by simp
  have ev: "analyse_files example_fs ?L = [(''ERROR'', 6), (''INFO'', 4), (''__errors__'', 1)]"
    by code_simp
  note inst = distributed_counts_equal_sequential [OF h, of example_fs ?L False True]
  note inst1 = distributed_counts_equal_sequential [OF h1, of example_fs ?L False True]
  have a: "map_of (merged_chunk_counts example_fs ?L (int 2)) = map_of (analyse_files example_fs ?L)"
    by (rule inst [THEN conjunct1])
  have b: "\<exists>run. coordinate example_fs ?L False 2 True = Inr run
          \<and> map_of (master_counts run) = map_of (analyse_files example_fs ?L)"
    by (rule inst [THEN conjunct2, THEN conjunct1])
  have c: "\<exists>run. coordinate example_fs ?L False 1 True = Inr run
          \<and> master_counts run = analyse_files example_fs ?L"
    by (rule mp [OF inst1 [THEN conjunct2, THEN conjunct2] refl])
  show ?thesis by (intro conjI) (rule h a b ev c)+
qed

text \<open>
  C3, as the code has it. \<open>analyse_files\<close> is a total function of the file system and
  the list: the handler inside the loop catches the exception of an unreadable file and
  no exception leaves the function. With one unreadable identifier among identifiers
  that are read to their end, the count of the error tag \<open>__errors__\<close> is exactly 1
  (and 0 without that identifier). The lines the unreadable file yields before its
  exception are counted: the count of every log level is the count for the readable
  identifiers alone plus the count of the lines read from the unreadable file up to
  the failure. When the file cannot be opened, so that no line is read, the counts of
  the log levels are those of the readable identifiers alone and the mapping is theirs
  with \<open>__errors__\<close> set to 1.
\<close>

theorem unreadable_file_counts:
  assumes "unreadable fs u" and "\<forall>f \<in> set (xs @ ys). readable fs f"
  shows "counter_get (analyse_files fs (xs @ u # ys)) ERRORS_TAG = 1
       \<and> counter_get (analyse_files fs (xs @ ys)) ERRORS_TAG = 0
       \<and> (\<forall>level \<in> set LOG_LEVELS.
             counter_get (analyse_files fs (xs @ u # ys)) level
               = counter_get (analyse_files fs (xs @ ys)) level
                 + counter_get (analyse_files (read_to_failure fs u) [u]) level)
       \<and> map_of (analyse_files fs (xs @ u # ys))
           = (map_of (analyse_files (read_to_failure fs u) (xs @ u # ys)))(ERRORS_TAG \<mapsto> 1)
       \<and> (cannot_open fs u \<longrightarrow>
             map_of (analyse_files fs (xs @ u # ys))
               = (map_of (analyse_files fs (xs @ ys)))(ERRORS_TAG \<mapsto> 1)
             \<and> (\<forall>level \<in> set LOG_LEVELS.
                   counter_get (analyse_files fs (xs @ u # ys)) level
                     = counter_get (analyse_files fs (xs @ ys)) level))"
proof -
  let ?lt = "concat (map line_tags (yielded (fs u)))"
  let ?fs' = "read_to_failure fs u"
  have nu: "u \<notin> set xs" "u \<notin> set ys"
    using assms by (auto simp: unreadable_def readable_def)
  have t: "tags_of fs (xs @ u # ys) = tags_of fs xs @ ?lt @ ERRORS_TAG # tags_of fs ys"
    using assms(1) by (simp add: tags_of_def unreadable_tags)
  have t': "tags_of fs (xs @ ys) = tags_of fs xs @ tags_of fs ys"
    by (simp add: tags_of_def)
  have tu: "tags_of ?fs' [u] = ?lt"
    by (simp add: tags_of_def read_to_failure_tags)
  have tf: "tags_of ?fs' (xs @ u # ys) = tags_of fs xs @ ?lt @ tags_of fs ys"
  proof -
    have "tags_of ?fs' (xs @ u # ys) = tags_of ?fs' xs @ tags_of ?fs' [u] @ tags_of ?fs' ys"
      by (simp add: tags_of_def)
    then show ?thesis using nu by (simp add: read_to_failure_other tu)
  qed
  have no: "ERRORS_TAG \<notin> set (tags_of fs xs)" "ERRORS_TAG \<notin> set (tags_of fs ys)"
    using assms(2) by (simp_all add: readable_list_no_error_tag)
  have nl: "ERRORS_TAG \<notin> set ?lt" by (rule yielded_tags_no_error_tag)
  have one: "counter_get (analyse_files fs (xs @ u # ys)) ERRORS_TAG = 1"
    using no nl by (simp add: counter_get_analyse_files t)
  have zero: "counter_get (analyse_files fs (xs @ ys)) ERRORS_TAG = 0"
    using no by (simp add: counter_get_analyse_files t')
  have lv: "counter_get (analyse_files fs (xs @ u # ys)) level
               = counter_get (analyse_files fs (xs @ ys)) level
                 + counter_get (analyse_files ?fs' [u]) level"
    if "level \<in> set LOG_LEVELS" for level
    using level_not_error_tag [OF that] by (simp add: counter_get_analyse_files t t' tu)
  have m: "map_of (analyse_files fs (xs @ u # ys))
           = (map_of (analyse_files ?fs' (xs @ u # ys)))(ERRORS_TAG \<mapsto> 1)"
    using no nl by (auto simp: fun_eq_iff map_of_analyse_files t tf)
  have co: "map_of (analyse_files fs (xs @ u # ys))
               = (map_of (analyse_files fs (xs @ ys)))(ERRORS_TAG \<mapsto> 1)
             \<and> (\<forall>level \<in> set LOG_LEVELS.
                   counter_get (analyse_files fs (xs @ u # ys)) level
                     = counter_get (analyse_files fs (xs @ ys)) level)"
    if "cannot_open fs u"
  proof -
    from that have e: "?lt = []" by (simp add: cannot_open_def)
    have "map_of (analyse_files fs (xs @ u # ys))
               = (map_of (analyse_files fs (xs @ ys)))(ERRORS_TAG \<mapsto> 1)"
      using no by (auto simp: fun_eq_iff map_of_analyse_files t t' e)
    moreover have "\<forall>level \<in> set LOG_LEVELS.
                   counter_get (analyse_files fs (xs @ u # ys)) level
                     = counter_get (analyse_files fs (xs @ ys)) level"
      using level_not_error_tag by (auto simp: counter_get_analyse_files t t' e)
    ultimately show ?thesis by (rule conjI)
  qed
  have lvb: "\<forall>level \<in> set LOG_LEVELS.
             counter_get (analyse_files fs (xs @ u # ys)) level
               = counter_get (analyse_files fs (xs @ ys)) level
                 + counter_get (analyse_files ?fs' [u]) level"
    using lv by (rule ballI)
  have cob: "cannot_open fs u \<longrightarrow>
             map_of (analyse_files fs (xs @ u # ys))
               = (map_of (analyse_files fs (xs @ ys)))(ERRORS_TAG \<mapsto> 1)
             \<and> (\<forall>level \<in> set LOG_LEVELS.
                   counter_get (analyse_files fs (xs @ u # ys)) level
                     = counter_get (analyse_files fs (xs @ ys)) level)"
    using co by (rule impI)
  show ?thesis by (intro conjI) (rule one zero lvb m cob)+
qed

theorem unreadable_file_counts_witness:
  "unreadable example_fs_mid ''bad.log''
   \<and> readable example_fs_mid ''a.log''
   \<and> counter_get (analyse_files example_fs_mid ([''a.log''] @ ''bad.log'' # [])) ERRORS_TAG = 1
   \<and> counter_get (analyse_files example_fs_mid ([''a.log''] @ ''bad.log'' # [])) ''ERROR''
       = counter_get (analyse_files example_fs_mid ([''a.log''] @ [])) ''ERROR''
         + counter_get (analyse_files (read_to_failure example_fs_mid ''bad.log'') [''bad.log'']) ''ERROR''
   \<and> counter_get (analyse_files example_fs_mid [''a.log'', ''bad.log'']) ''ERROR'' = 5
   \<and> counter_get (analyse_files example_fs_mid [''a.log'']) ''ERROR'' = 3
   \<and> counter_get (analyse_files (read_to_failure example_fs_mid ''bad.log'') [''bad.log'']) ''ERROR'' = 2
   \<and> cannot_open example_fs ''b.log''
   \<and> map_of (analyse_files example_fs ([''a.log''] @ ''b.log'' # [''a.log'']))
       = (map_of (analyse_files example_fs ([''a.log''] @ [''a.log''])))(ERRORS_TAG \<mapsto> 1)
   \<and> analyse_files example_fs [''a.log'', ''b.log'', ''a.log'']
       = [(''ERROR'', 6), (''INFO'', 4), (''__errors__'', 1)]
   \<and> analyse_files example_fs [''a.log'', ''a.log''] = [(''ERROR'', 6), (''INFO'', 4)]"
proof -
  have u: "unreadable example_fs_mid ''bad.log''"
    by (simp add: unreadable_def example_fs_mid_def)
  have a: "readable example_fs_mid ''a.log''"
    by (simp add: readable_def example_fs_mid_def example_fs_def)
  then have r: "\<forall>f \<in> set ([''a.log''] @ []). readable example_fs_mid f" by simp
  note inst = unreadable_file_counts [OF u r]
  have one: "counter_get (analyse_files example_fs_mid ([''a.log''] @ ''bad.log'' # [])) ERRORS_TAG = 1"
    by (rule inst [THEN conjunct1])
  have lv: "''ERROR'' \<in> set LOG_LEVELS" by (simp add: LOG_LEVELS_def)
  have l: "counter_get (analyse_files example_fs_mid ([''a.log''] @ ''bad.log'' # [])) ''ERROR''
       = counter_get (analyse_files example_fs_mid ([''a.log''] @ [])) ''ERROR''
         + counter_get (analyse_files (read_to_failure example_fs_mid ''bad.log'') [''bad.log'']) ''ERROR''"
    by (rule bspec [OF inst [THEN conjunct2, THEN conjunct2, THEN conjunct1] lv])
  have v1: "counter_get (analyse_files example_fs_mid [''a.log'', ''bad.log'']) ''ERROR'' = 5"
    by code_simp
  have v2: "counter_get (analyse_files example_fs_mid [''a.log'']) ''ERROR'' = 3"
    by code_simp
  have v3: "counter_get (analyse_files (read_to_failure example_fs_mid ''bad.log'') [''bad.log'']) ''ERROR'' = 2"
    by code_simp
  have u': "unreadable example_fs ''b.log''"
    by (simp add: unreadable_def example_fs_def)
  have c': "cannot_open example_fs ''b.log''"
    by (simp add: cannot_open_def example_fs_def)
  have a': "readable example_fs ''a.log''"
    by (simp add: readable_def example_fs_def)
  then have r': "\<forall>f \<in> set ([''a.log''] @ [''a.log'']). readable example_fs f" by simp
  note inst' = unreadable_file_counts [OF u' r']
  have m: "map_of (analyse_files example_fs ([''a.log''] @ ''b.log'' # [''a.log'']))
       = (map_of (analyse_files example_fs ([''a.log''] @ [''a.log''])))(ERRORS_TAG \<mapsto> 1)"
    by (rule mp [OF inst' [THEN conjunct2, THEN conjunct2, THEN conjunct2, THEN conjunct2] c',
                 THEN conjunct1])
  have e1: "analyse_files example_fs [''a.log'', ''b.log'', ''a.log'']
       = [(''ERROR'', 6), (''INFO'', 4), (''__errors__'', 1)]"
    by code_simp
  have e2: "analyse_files example_fs [''a.log'', ''a.log''] = [(''ERROR'', 6), (''INFO'', 4)]"
    by code_simp
  show ?thesis by (intro conjI) (rule u a one l v1 v2 v3 c' m e1 e2)+
qed

text \<open>
  C3, as the claim states it (the counts of the log levels are those of the readable
  files alone), fails for a file whose reading raises after some lines: \<open>bad.log\<close>
  yields two ERROR lines and then raises, and next to the readable \<open>a.log\<close> with its
  three ERROR lines the count of ERROR is 5, not 3.
\<close>

theorem unreadable_file_counterexample:
  "unreadable example_fs_mid ''bad.log''
   \<and> readable example_fs_mid ''a.log''
   \<and> analyse_files example_fs_mid [''a.log'', ''bad.log'']
       = [(''ERROR'', 5), (''INFO'', 2), (''__errors__'', 1)]
   \<and> analyse_files example_fs_mid [''a.log''] = [(''ERROR'', 3), (''INFO'', 2)]
   \<and> counter_get (analyse_files example_fs_mid [''a.log'', ''bad.log'']) ''ERROR''
       \<noteq> counter_get (analyse_files example_fs_mid [''a.log'']) ''ERROR''"
  by code_simp

text \<open>
  C5. The additive merge does not depend on the order: folding a collection of partial
  mappings into a running total with \<open>dict_add\<close> gives the same final mapping for
  every order of the collection, and \<open>dict_add\<close> is commutative and associative as far
  as the resulting mapping goes. (The insertion order of the keys may differ; Python
  compares dictionaries by keys and values.)
\<close>

theorem dict_add_order_irrelevant:
  assumes "\<forall>p \<in> set ps. is_dict p" and "mset ps = mset qs"
  shows "map_of (fold_partials ps running) = map_of (fold_partials qs running)
       \<and> (is_dict a \<and> is_dict b \<longrightarrow> map_of (dict_add a b) = map_of (dict_add b a))
       \<and> (is_dict b \<and> is_dict c \<longrightarrow>
            map_of (dict_add (dict_add a b) c) = map_of (dict_add a (dict_add b c)))"
proof -
  have qs: "\<forall>p \<in> set qs. is_dict p"
    using assms by (metis set_mset_mset)
  have "mset (map map_of ps) = mset (map map_of qs)"
    using assms(2) by (metis mset_map)
  then have "fold (\<lambda>m acc. map_add_counts acc m) (map map_of ps)
               = fold (\<lambda>m acc. map_add_counts acc m) (map map_of qs)"
    by (intro fold_multiset_equiv) (simp_all add: fun_eq_iff map_add_counts_swap)
  then have order: "map_of (fold_partials ps running) = map_of (fold_partials qs running)"
    using assms(1) qs by (simp add: map_of_fold_partials)
  have comm: "map_of (dict_add a b) = map_of (dict_add b a)" if "is_dict a \<and> is_dict b"
    using that map_add_counts_commute [of "map_of a" "map_of b"] by (simp add: map_of_dict_add)
  have assoc: "map_of (dict_add (dict_add a b) c) = map_of (dict_add a (dict_add b c))"
    if "is_dict b \<and> is_dict c"
    using that by (simp add: map_of_dict_add is_dict_dict_add map_add_counts_assoc)
  show ?thesis using order comm assoc by blast
qed

theorem dict_add_order_irrelevant_witness:
  "map_of (fold_partials [[(''INFO'', 2), (''ERROR'', 1)], [(''__errors__'', 1)], [(''ERROR'', 4), (''WARN'', 1)]] [(''DEBUG'', 1)])
     = map_of (fold_partials [[(''ERROR'', 4), (''WARN'', 1)], [(''INFO'', 2), (''ERROR'', 1)], [(''__errors__'', 1)]] [(''DEBUG'', 1)])
   \<and> fold_partials [[(''INFO'', 2), (''ERROR'', 1)], [(''__errors__'', 1)], [(''ERROR'', 4), (''WARN'', 1)]] [(''DEBUG'', 1)]
       = [(''DEBUG'', 1), (''INFO'', 2), (''ERROR'', 5), (''__errors__'', 1), (''WARN'', 1)]
   \<and> fold_partials [[(''ERROR'', 4), (''WARN'', 1)], [(''INFO'', 2), (''ERROR'', 1)], [(''__errors__'', 1)]] [(''DEBUG'', 1)]
       = [(''DEBUG'', 1), (''ERROR'', 5), (''WARN'', 1), (''INFO'', 2), (''__errors__'', 1)]
   \<and> map_of (dict_add [(''INFO'', 2), (''ERROR'', 1)] [(''ERROR'', 4), (''WARN'', 1)])
       = map_of (dict_add [(''ERROR'', 4), (''WARN'', 1)] [(''INFO'', 2), (''ERROR'', 1)])
   \<and> map_of (dict_add (dict_add [(''INFO'', 2), (''ERROR'', 1)] [(''ERROR'', 4), (''WARN'', 1)])
               [(''__errors__'', 1)])
       = map_of (dict_add [(''INFO'', 2), (''ERROR'', 1)]
                   (dict_add [(''ERROR'', 4), (''WARN'', 1)] [(''__errors__'', 1)]))"
proof -
  let ?p1 = "[(''INFO'', 2), (''ERROR'', 1)] :: counter"
  let ?p2 = "[(''__errors__'', 1)] :: counter"
  let ?p3 = "[(''ERROR'', 4), (''WARN'', 1)] :: counter"
  have d: "\<forall>p \<in> set [?p1, ?p2, ?p3]. is_dict p" by (simp add: is_dict_def)
  have m: "mset [?p1, ?p2, ?p3] = mset [?p3, ?p1, ?p2]" by simp
  have d1: "is_dict ?p1" and d2: "is_dict ?p2" and d3: "is_dict ?p3"
    by (simp_all add: is_dict_def)
  have e1: "fold_partials [?p1, ?p2, ?p3] [(''DEBUG'', 1)]
       = [(''DEBUG'', 1), (''INFO'', 2), (''ERROR'', 5), (''__errors__'', 1), (''WARN'', 1)]"
    by code_simp
  have e2: "fold_partials [?p3, ?p1, ?p2] [(''DEBUG'', 1)]
       = [(''DEBUG'', 1), (''ERROR'', 5), (''WARN'', 1), (''INFO'', 2), (''__errors__'', 1)]"
    by code_simp
  note inst = dict_add_order_irrelevant [OF d m, of "[(''DEBUG'', 1)]" ?p1 ?p3]
  note inst' = dict_add_order_irrelevant [OF d m, of "[(''DEBUG'', 1)]" ?p1 ?p3 ?p2]
  have o: "map_of (fold_partials [?p1, ?p2, ?p3] [(''DEBUG'', 1)])
             = map_of (fold_partials [?p3, ?p1, ?p2] [(''DEBUG'', 1)])"
    by (rule inst [THEN conjunct1])
  have c: "map_of (dict_add ?p1 ?p3) = map_of (dict_add ?p3 ?p1)"
    by (rule mp [OF inst [THEN conjunct2, THEN conjunct1] conjI [OF d1 d3]])
  have a: "map_of (dict_add (dict_add ?p1 ?p3) ?p2) = map_of (dict_add ?p1 (dict_add ?p3 ?p2))"
    by (rule mp [OF inst' [THEN conjunct2, THEN conjunct2] conjI [OF d3 d2]])
  show ?thesis by (intro conjI) (rule o e1 e2 c a)+
qed

text \<open>
  C8. Every mapping \<open>analyse_files\<close> returns, and every mapping \<open>dict_add\<close> makes out of
  such mappings, has its keys among DEBUG, ERROR, INFO, WARN and the reserved
  \<open>__errors__\<close>, and a count that is not negative for each key.
\<close>

theorem obtained_tag_counts:
  assumes "obtained fs c"
  shows "\<forall>(k, v) \<in> set c.
           k \<in> {''DEBUG'', ''ERROR'', ''INFO'', ''WARN'', ''__errors__''} \<and> 0 \<le> v"
proof -
  from obtained_ok [OF assms] have d: "distinct (map fst c)" and ok: "tag_counts_ok (map_of c)"
    by (simp_all add: is_dict_def)
  have "k \<in> insert ERRORS_TAG (set LOG_LEVELS) \<and> 0 \<le> v" if "(k, v) \<in> set c" for k v
  proof -
    from that d have "map_of c k = Some v" by simp
    with ok show ?thesis unfolding tag_counts_ok_def by blast
  qed
  then show ?thesis unfolding recognized_literal by (intro ballI) (simp only: split_paired_all case_prod_conv)
qed

theorem obtained_tag_counts_witness:
  "obtained example_fs
     (dict_add (analyse_files example_fs [''a.log'']) (analyse_files example_fs [''b.log'']))
   \<and> dict_add (analyse_files example_fs [''a.log'']) (analyse_files example_fs [''b.log''])
       = [(''ERROR'', 3), (''INFO'', 2), (''__errors__'', 1)]
   \<and> list_all (\<lambda>(k, v). k \<in> {''DEBUG'', ''ERROR'', ''INFO'', ''WARN'', ''__errors__''} \<and> 0 \<le> v)
        (dict_add (analyse_files example_fs [''a.log'']) (analyse_files example_fs [''b.log'']))"
proof -
  let ?c = "dict_add (analyse_files example_fs [''a.log'']) (analyse_files example_fs [''b.log''])"
  have o: "obtained example_fs ?c"
    by (intro obtained.intros)
  have e: "?c = [(''ERROR'', 3), (''INFO'', 2), (''__errors__'', 1)]"
    by code_simp
  have "list_all (\<lambda>(k, v). k \<in> {''DEBUG'', ''ERROR'', ''INFO'', ''WARN'', ''__errors__''} \<and> 0 \<le> v) ?c"
    using obtained_tag_counts [OF o] by (simp only: list_all_iff)
  with o e show ?thesis by (intro conjI)
qed

text \<open>
  C9. \<open>analyse_files\<close> on the empty file list returns the empty mapping, whose count is
  0 for every tag; this is what a worker with an empty assignment sends back, and
  merging it changes nothing. With more participants than files, the participants from
  rank \<open>len(L)\<close> on are assigned the empty list.
\<close>

theorem empty_workload_zero_counts:
  "analyse_files fs [] = []
   \<and> worker_counts fs [] = []
   \<and> (\<forall>tag. counter_get (analyse_files fs []) tag = 0)
   \<and> (length L < n \<and> length L \<le> i \<and> i < n \<longrightarrow>
        chunk_list L (int n) ! i = [] \<and> worker_counts fs (chunk_list L (int n) ! i) = [])
   \<and> dict_add running (worker_counts fs []) = running"
  using chunk_beyond_files_empty [of L n i]
  by (auto simp: analyse_files_def worker_counts_def counter_get_def dict_add_def)

theorem empty_workload_zero_counts_witness:
  "length [''a.log''] < (3::nat) \<and> length [''a.log''] \<le> (2::nat) \<and> (2::nat) < 3
   \<and> chunk_list [''a.log''] (int 3) = [[''a.log''], [], []]
   \<and> chunk_list [''a.log''] (int 3) ! 2 = []
   \<and> worker_counts example_fs (chunk_list [''a.log''] (int 3) ! 2) = []"
proof -
  have h: "length [''a.log''] < (3::nat) \<and> length [''a.log''] \<le> (2::nat) \<and> (2::nat) < 3" by simp
  have e: "chunk_list [''a.log''] (int 3) = [[''a.log''], [], []]" by code_simp
  note inst = empty_workload_zero_counts [of example_fs "[''a.log'']" 3 2]
  have c: "chunk_list [''a.log''] (int 3) ! 2 = []
           \<and> worker_counts example_fs (chunk_list [''a.log''] (int 3) ! 2) = []"
    by (rule mp [OF inst [THEN conjunct2, THEN conjunct2, THEN conjunct2, THEN conjunct1] h])
  show ?thesis
    by (intro conjI) (rule h [THEN conjunct1] h [THEN conjunct2, THEN conjunct1]
          h [THEN conjunct2, THEN conjunct2] e c [THEN conjunct1] c [THEN conjunct2])+
qed

text \<open>
  C4, as the code has it. The report ends the trace of rank 0. It has a line
  \<open>FILES_OPEN_ERRORS: n\<close> with the total of the error tag exactly when that total is
  positive; the line is left out when the total is zero. The four lines of the log
  levels are always there, zero or not.
\<close>

theorem report_error_total_only_when_positive:
  "reports_error_total (report_lines c) = (0 < counter_get c ERRORS_TAG)
   \<and> (0 < counter_get c ERRORS_TAG \<longrightarrow>
        ''FILES_OPEN_ERRORS: '' @ str_int (counter_get c ERRORS_TAG) \<in> set (report_lines c))
   \<and> (\<forall>level \<in> set LOG_LEVELS.
        level @ '': '' @ str_int (counter_get c level) \<in> set (report_lines c))
   \<and> (1 \<le> n \<longrightarrow>
        (\<exists>run pre. coordinate fs L manifest_mode n skip_seq = Inr run
           \<and> events run = pre @ map Stdout (report_lines (master_counts run))))"
proof -
  have a: "reports_error_total (report_lines c) = (0 < counter_get c ERRORS_TAG)"
    by (rule reports_error_total_iff)
  have b: "''FILES_OPEN_ERRORS: '' @ str_int (counter_get c ERRORS_TAG) \<in> set (report_lines c)"
    if "0 < counter_get c ERRORS_TAG"
    using that by (simp add: report_lines_def)
  have l: "level @ '': '' @ str_int (counter_get c level) \<in> set (report_lines c)"
    if "level \<in> set LOG_LEVELS" for level
    using that by (simp add: report_lines_def)
  have r: "\<exists>run pre. coordinate fs L manifest_mode n skip_seq = Inr run
           \<and> events run = pre @ map Stdout (report_lines (master_counts run))" if "1 \<le> n"
  proof -
    let ?total = "fold_partials (map (analyse_files fs) (tl (chunk_list L (int n))))
                     (analyse_files fs (hd (chunk_list L (int n))))"
    let ?pre = "[Stdout (found_line (length L) manifest_mode)]
              @ map (\<lambda>r. Send r (chunk_list L (int n) ! r)) [1..<n]
              @ baseline_events skip_seq
              @ [Stdout ''Master: starting parallel analysis...'', Barrier]
              @ map (\<lambda>r. Recv r (worker_counts fs (chunk_list L (int n) ! r))) [1..<n]"
    have "coordinate fs L manifest_mode n skip_seq
            = Inr \<lparr>events = ?pre @ map Stdout (report_lines ?total), master_counts = ?total\<rparr>"
      using coordinate_ok [OF that, of fs L manifest_mode skip_seq] by simp
    then show ?thesis by (intro exI [of _ "\<lparr>events = ?pre @ map Stdout (report_lines ?total), master_counts = ?total\<rparr>"] exI [of _ ?pre]) simp
  qed
  show ?thesis using a b l r by blast
qed

theorem report_error_total_only_when_positive_witness:
  "0 < counter_get [(''ERROR'', 3), (''INFO'', 2), (''__errors__'', 1)] ERRORS_TAG
   \<and> ''FILES_OPEN_ERRORS: 1'' \<in> set (report_lines [(''ERROR'', 3), (''INFO'', 2), (''__errors__'', 1)])
   \<and> reports_error_total (report_lines [(''ERROR'', 3), (''INFO'', 2), (''__errors__'', 1)])
   \<and> ''ERROR: 3'' \<in> set (report_lines [(''ERROR'', 3), (''INFO'', 2), (''__errors__'', 1)])
   \<and> (\<exists>run pre. coordinate example_fs [''a.log'', ''b.log''] False 1 True = Inr run
         \<and> events run = pre @ map Stdout (report_lines (master_counts run)))"
proof -
  let ?c = "[(''ERROR'', 3), (''INFO'', 2), (''__errors__'', 1)] :: counter"
  have h: "0 < counter_get ?c ERRORS_TAG" by code_simp
  have s: "''FILES_OPEN_ERRORS: '' @ str_int (counter_get ?c ERRORS_TAG) = ''FILES_OPEN_ERRORS: 1''"
    by code_simp
  have s': "''ERROR'' @ '': '' @ str_int (counter_get ?c ''ERROR'') = ''ERROR: 3''"
    by code_simp
  have lv: "''ERROR'' \<in> set LOG_LEVELS" by (simp add: LOG_LEVELS_def)
  have h1: "(1::nat) \<le> 1" by simp
  note inst = report_error_total_only_when_positive
                [of ?c 1 example_fs "[''a.log'', ''b.log'']" False True]
  have m: "''FILES_OPEN_ERRORS: 1'' \<in> set (report_lines ?c)"
    using mp [OF inst [THEN conjunct2, THEN conjunct1] h] by (simp only: s)
  have r: "reports_error_total (report_lines ?c)"
    using inst [THEN conjunct1] h by (simp only:)
  have l: "''ERROR: 3'' \<in> set (report_lines ?c)"
    using bspec [OF inst [THEN conjunct2, THEN conjunct2, THEN conjunct1] lv] by (simp only: s')
  have t: "\<exists>run pre. coordinate example_fs [''a.log'', ''b.log''] False 1 True = Inr run
         \<and> events run = pre @ map Stdout (report_lines (master_counts run))"
    by (rule mp [OF inst [THEN conjunct2, THEN conjunct2, THEN conjunct2] h1])
  show ?thesis by (intro conjI) (rule h m r l t)+
qed

text \<open>
  C4, as the claim states it (the report always has the error total, even when zero),
  fails: the run on the one readable file \<open>a.log\<close> with one process prints the
  lines below, and none of them gives the total of the error tag, which is zero.
\<close>

theorem report_error_total_counterexample:
  "master example_fs \<lparr>args_input = ''a.log'', args_count = 0, args_no_seq = True\<rparr> 1
     = Inr \<lparr>events =
        [Stdout ''Master: found 1 file(s) (manifest_mode=False)'',
         Stdout ''Master: starting parallel analysis...'', Barrier,
         Stdout (CHR 0x0A # ''==================================================''),
         Stdout ''ANALYSIS RESULTS'',
         Stdout ''=================================================='',
         Stdout ''DEBUG: 0'', Stdout ''ERROR: 3'', Stdout ''INFO: 2'',
         Stdout ''WARN: 0'',
         Stdout ''==================================================''],
        master_counts = [(''ERROR'', 3), (''INFO'', 2)]\<rparr>
   \<and> counter_get [(''ERROR'', 3), (''INFO'', 2)] ERRORS_TAG = 0
   \<and> \<not> reports_error_total (report_lines [(''ERROR'', 3), (''INFO'', 2)])"
  by code_simp

text \<open>
  C7. The sequential baseline has no effect on the distributed counts: the counts rank 0
  ends with are the same whether the baseline runs or \<open>--no-seq\<close> skips it, for every
  file list and every number of processes, from the file list on and from the command
  line on; and with at least one process the run does end with counts, those of the
  sequential pass.
\<close>

theorem baseline_does_not_change_counts:
  "map_sum id master_counts (coordinate fs L manifest_mode n True)
     = map_sum id master_counts (coordinate fs L manifest_mode n False)
   \<and> map_sum id master_counts (master fs (a\<lparr>args_no_seq := True\<rparr>) n)
     = map_sum id master_counts (master fs (a\<lparr>args_no_seq := False\<rparr>) n)
   \<and> (1 \<le> n \<longrightarrow> (\<exists>c. map_sum id master_counts (coordinate fs L manifest_mode n False) = Inr c
                       \<and> map_of c = map_of (analyse_files fs L)))"
proof -
  have c: "map_sum id master_counts (coordinate fs L mm n True)
     = map_sum id master_counts (coordinate fs L mm n False)" for L mm
    by (simp add: coordinate_def Let_def split: sum.splits prod.splits)
  have m: "map_sum id master_counts (master fs (a\<lparr>args_no_seq := True\<rparr>) n)
     = map_sum id master_counts (master fs (a\<lparr>args_no_seq := False\<rparr>) n)"
  proof -
    have r: "resolve_file_list fs (a\<lparr>args_no_seq := b\<rparr>) = resolve_file_list fs a" for b
      by (simp add: resolve_file_list_def Let_def)
    obtain fl mm errs where res: "resolve_file_list fs a = (fl, mm, errs)"
      by (cases "resolve_file_list fs a") auto
    have "map_sum id master_counts (master fs (a\<lparr>args_no_seq := b\<rparr>) n)
            = map_sum id master_counts (coordinate fs fl mm n b)" for b
      by (cases "coordinate fs fl mm n b") (simp_all add: master_def r res)
    then show ?thesis by (simp only: c)
  qed
  have t: "\<exists>c. map_sum id master_counts (coordinate fs L manifest_mode n False) = Inr c
               \<and> map_of c = map_of (analyse_files fs L)" if "1 \<le> n"
    using that by (simp add: coordinate_ok coordinate_counts)
  show ?thesis using c m t by blast
qed

theorem baseline_does_not_change_counts_witness:
  "(1::nat) \<le> 2
   \<and> map_sum id master_counts (coordinate example_fs [''a.log'', ''b.log''] False 2 True)
       = Inr [(''ERROR'', 3), (''INFO'', 2), (''__errors__'', 1)]
   \<and> map_sum id master_counts (coordinate example_fs [''a.log'', ''b.log''] False 2 False)
       = Inr [(''ERROR'', 3), (''INFO'', 2), (''__errors__'', 1)]
   \<and> (\<exists>c. map_sum id master_counts (coordinate example_fs [''a.log'', ''b.log''] False 2 False)
              = Inr c
          \<and> map_of c = map_of (analyse_files example_fs [''a.log'', ''b.log'']))"
proof -
  have e: "map_sum id master_counts (coordinate example_fs [''a.log'', ''b.log''] False 2 True)
       = Inr [(''ERROR'', 3), (''INFO'', 2), (''__errors__'', 1)]"
    by code_simp
  have h: "(1::nat) \<le> 2" by simp
  note inst = baseline_does_not_change_counts [of example_fs "[''a.log'', ''b.log'']" False 2]
  have c: "map_sum id master_counts (coordinate example_fs [''a.log'', ''b.log''] False 2 False)
       = Inr [(''ERROR'', 3), (''INFO'', 2), (''__errors__'', 1)]"
    using inst [THEN conjunct1] e by simp
  have t: "\<exists>c. map_sum id master_counts (coordinate example_fs [''a.log'', ''b.log''] False 2 False)
              = Inr c
          \<and> map_of c = map_of (analyse_files example_fs [''a.log'', ''b.log''])"
    by (rule mp [OF inst [THEN conjunct2, THEN conjunct2] h])
  show ?thesis by (intro conjI) (rule h e c t)+
qed

text \<open>
  C6. On a configuration error (a pattern with a count that is not positive, or a manifest
  that cannot be read) the whole trace of rank 0 is known. The error is reported on the
  standard error stream first, before any message is sent. The file list is then empty:
  every worker of rank 1 to \<open>size - 1\<close> is sent one assignment, the empty list, so no
  file identifier is dispatched and no worker is left without its message; every worker
  answers with empty counts and the report shows zero for every level.
\<close>

theorem configuration_error_before_dispatch:
  assumes "configuration_error fs a" and "1 \<le> n"
  shows "master fs a n =
     Inr \<lparr>events = [Stderr (configuration_message fs a),
                     Stdout ''Master: found 0 file(s) (manifest_mode=False)'']
              @ map (\<lambda>r. Send r []) [1..<n]
              @ baseline_events (args_no_seq a)
              @ [Stdout ''Master: starting parallel analysis...'', Barrier]
              @ map (\<lambda>r. Recv r []) [1..<n]
              @ map Stdout (report_lines []),
           master_counts = []\<rparr>"
  by (simp add: master_def resolve_configuration_error [OF assms(1)] coordinate_Nil [OF assms(2)])

theorem configuration_error_before_dispatch_witness:
  "configuration_error example_fs \<lparr>args_input = ''logs_{n}.log'', args_count = 0, args_no_seq = True\<rparr>
   \<and> (1::nat) \<le> 3
   \<and> master example_fs \<lparr>args_input = ''logs_{n}.log'', args_count = 0, args_no_seq = True\<rparr> 3
     = Inr \<lparr>events =
        [Stderr ''Pattern mode requires --count N (N>0).'',
         Stdout ''Master: found 0 file(s) (manifest_mode=False)'',
         Send 1 [], Send 2 [],
         Stdout ''Master: starting parallel analysis...'', Barrier,
         Recv 1 [], Recv 2 [],
         Stdout (CHR 0x0A # ''==================================================''),
         Stdout ''ANALYSIS RESULTS'',
         Stdout ''=================================================='',
         Stdout ''DEBUG: 0'', Stdout ''ERROR: 0'', Stdout ''INFO: 0'',
         Stdout ''WARN: 0'',
         Stdout ''==================================================''],
        master_counts = []\<rparr>"
proof -
  let ?a = "\<lparr>args_input = ''logs_{n}.log'', args_count = 0, args_no_seq = True\<rparr>"
  have c: "configuration_error example_fs ?a" by code_simp
  have h: "(1::nat) \<le> 3" by simp
  have e: "[Stderr (configuration_message example_fs ?a),
                     Stdout ''Master: found 0 file(s) (manifest_mode=False)'']
              @ map (\<lambda>r. Send r []) [1..<3]
              @ baseline_events (args_no_seq ?a)
              @ [Stdout ''Master: starting parallel analysis...'', Barrier]
              @ map (\<lambda>r. Recv r []) [1..<3]
              @ map Stdout (report_lines [])
       = [Stderr ''Pattern mode requires --count N (N>0).'',
         Stdout ''Master: found 0 file(s) (manifest_mode=False)'',
         Send 1 [], Send 2 [],
         Stdout ''Master: starting parallel analysis...'', Barrier,
         Recv 1 [], Recv 2 [],
         Stdout (CHR 0x0A # ''==================================================''),
         Stdout ''ANALYSIS RESULTS'',
         Stdout ''=================================================='',
         Stdout ''DEBUG: 0'', Stdout ''ERROR: 0'', Stdout ''INFO: 0'',
         Stdout ''WARN: 0'',
         Stdout ''=================================================='']"
    by code_simp
  have m: "master example_fs ?a 3 = Inr \<lparr>events =
        [Stderr ''Pattern mode requires --count N (N>0).'',
         Stdout ''Master: found 0 file(s) (manifest_mode=False)'',
         Send 1 [], Send 2 [],
         Stdout ''Master: starting parallel analysis...'', Barrier,
         Recv 1 [], Recv 2 [],
         Stdout (CHR 0x0A # ''==================================================''),
         Stdout ''ANALYSIS RESULTS'',
         Stdout ''=================================================='',
         Stdout ''DEBUG: 0'', Stdout ''ERROR: 0'', Stdout ''INFO: 0'',
         Stdout ''WARN: 0'',
         Stdout ''==================================================''],
        master_counts = []\<rparr>"
    using configuration_error_before_dispatch [OF c h] by (simp only: e)
  show ?thesis by (intro conjI) (rule c h m)+
qed

text \<open>
  C10. The file-list resolution looks at the end of the input first: an input ending in
  \<open>.txt\<close> is read as a manifest, whether or not it contains \<open>{n}\<close> (and inputs with
  both exist); an input that does not end in \<open>.txt\<close> and contains \<open>{n}\<close> is a
  pattern, expanded over 1 to the count (or reported when the count is not positive);
  every other input is the list of that one identifier. \<open>suffix\<close> and \<open>sublist\<close>
  are \<open>endswith\<close> and \<open>in\<close>: the input is \<open>p @ ''.txt''\<close> for some \<open>p\<close>, the
  input is \<open>p @ ''{n}'' @ s\<close> for some \<open>p\<close> and \<open>s\<close>.
\<close>

theorem input_mode_resolution:
  "(suffix ''.txt'' (args_input a) \<longrightarrow>
      resolve_file_list fs a =
        (case read_manifest fs (args_input a) of
           Inr files \<Rightarrow> (files, True, [])
         | Inl e \<Rightarrow> ([], False,
             [''Failed to read manifest '' @ [CHR 0x27] @ args_input a @ [CHR 0x27] @ '': '' @ e])))
   \<and> (\<not> suffix ''.txt'' (args_input a) \<and> sublist ''{n}'' (args_input a) \<longrightarrow>
      resolve_file_list fs a =
        (if args_count a \<le> 0 then ([], False, [''Pattern mode requires --count N (N>0).''])
         else (build_from_pattern (args_input a) (args_count a), False, [])))
   \<and> (\<not> suffix ''.txt'' (args_input a) \<and> \<not> sublist ''{n}'' (args_input a) \<longrightarrow>
      resolve_file_list fs a = ([args_input a], False, []))
   \<and> (suffix ''.txt'' (p @ ''{n}'' @ s @ ''.txt'') \<and> sublist ''{n}'' (p @ ''{n}'' @ s @ ''.txt''))"
proof -
  have "suffix ''.txt'' ((p @ ''{n}'' @ s) @ ''.txt'')" by (rule suffixI) simp
  moreover have "sublist ''{n}'' (p @ ''{n}'' @ (s @ ''.txt''))" by (rule sublist_appendI)
  ultimately show ?thesis by (simp add: resolve_file_list_def Let_def)
qed

theorem input_mode_resolution_witness:
  "suffix ''.txt'' ''logs_{n}.txt'' \<and> sublist ''{n}'' ''logs_{n}.txt''
   \<and> resolve_file_list example_fs \<lparr>args_input = ''logs_{n}.txt'', args_count = 3, args_no_seq = False\<rparr>
       = ([], False, [''Failed to read manifest '' @ [CHR 0x27] @ ''logs_{n}.txt'' @ [CHR 0x27]
                       @ '': [Errno 2] No such file or directory''])
   \<and> resolve_file_list example_fs \<lparr>args_input = ''manifest.txt'', args_count = 0, args_no_seq = False\<rparr>
       = ([''a.log'', ''b.log''], True, [])
   \<and> resolve_file_list example_fs \<lparr>args_input = ''logs_{n}.log'', args_count = 3, args_no_seq = False\<rparr>
       = ([''logs_1.log'', ''logs_2.log'', ''logs_3.log''], False, [])
   \<and> resolve_file_list example_fs \<lparr>args_input = ''a.log'', args_count = 3, args_no_seq = False\<rparr>
       = ([''a.log''], False, [])"
proof -
  let ?a1 = "\<lparr>args_input = ''logs_{n}.txt'', args_count = 3, args_no_seq = False\<rparr>"
  let ?a2 = "\<lparr>args_input = ''manifest.txt'', args_count = 0, args_no_seq = False\<rparr>"
  let ?a3 = "\<lparr>args_input = ''logs_{n}.log'', args_count = 3, args_no_seq = False\<rparr>"
  let ?a4 = "\<lparr>args_input = ''a.log'', args_count = 3, args_no_seq = False\<rparr>"
  have s1: "suffix ''.txt'' ''logs_{n}.txt''" and n1: "sublist ''{n}'' ''logs_{n}.txt''"
    by code_simp+
  have s1': "suffix ''.txt'' (args_input ?a1)" using s1 by simp
  have s2: "suffix ''.txt'' (args_input ?a2)" by code_simp
  have h3: "\<not> suffix ''.txt'' (args_input ?a3) \<and> sublist ''{n}'' (args_input ?a3)" by code_simp
  have h4: "\<not> suffix ''.txt'' (args_input ?a4) \<and> \<not> sublist ''{n}'' (args_input ?a4)" by code_simp
  have r1: "read_manifest example_fs ''logs_{n}.txt'' = Inl ''[Errno 2] No such file or directory''"
    by code_simp
  have r2: "read_manifest example_fs ''manifest.txt'' = Inr [''a.log'', ''b.log'']"
    by code_simp
  have b3: "build_from_pattern ''logs_{n}.log'' 3 = [''logs_1.log'', ''logs_2.log'', ''logs_3.log'']"
    by code_simp
  have e1: "resolve_file_list example_fs ?a1
       = ([], False, [''Failed to read manifest '' @ [CHR 0x27] @ ''logs_{n}.txt'' @ [CHR 0x27]
                       @ '': [Errno 2] No such file or directory''])"
    using mp [OF input_mode_resolution [of ?a1 example_fs, THEN conjunct1] s1'] by (simp add: r1)
  have e2: "resolve_file_list example_fs ?a2 = ([''a.log'', ''b.log''], True, [])"
    using mp [OF input_mode_resolution [of ?a2 example_fs, THEN conjunct1] s2] by (simp add: r2)
  have e3: "resolve_file_list example_fs ?a3
       = ([''logs_1.log'', ''logs_2.log'', ''logs_3.log''], False, [])"
    using mp [OF input_mode_resolution [of ?a3 example_fs, THEN conjunct2, THEN conjunct1] h3]
    by (simp add: b3)
  have e4: "resolve_file_list example_fs ?a4 = ([''a.log''], False, [])"
    using mp [OF input_mode_resolution [of ?a4 example_fs, THEN conjunct2, THEN conjunct2, THEN conjunct1] h4]
    by simp
  show ?thesis by (intro conjI) (rule s1 n1 e1 e2 e3 e4)+
qed

end
